theory Spec2Isabelle
  imports Complex_Main "HOL-Library.Word" "HOL-Library.Multiset"
begin

section \<open>JavaScript strings\<close>

text \<open>
  A JavaScript string is a sequence of UTF-16 code units.  \<open>String.prototype.trim\<close>
  removes, from both ends, every code unit that ECMAScript classifies as \<open>WhiteSpace\<close>
  or \<open>LineTerminator\<close>: TAB, LF, VT, FF, CR, SP, NBSP, U+1680, U+2000 to U+200A,
  U+2028, U+2029, U+202F, U+205F, U+3000 and U+FEFF (all in the basic plane, so one code
  unit each).
\<close>

type_synonym code_unit = "16 word"
type_synonym jsstring = "code_unit list"

definition LF :: code_unit where
  "LF = 0x0A"

definition isWhiteSpace :: "code_unit \<Rightarrow> bool" where
  "isWhiteSpace c \<longleftrightarrow>
     c = 0x09 \<or> c = 0x0A \<or> c = 0x0B \<or> c = 0x0C \<or> c = 0x0D \<or> c = 0x20 \<or> c = 0xA0 \<or>
     c = 0x1680 \<or> (0x2000 \<le> c \<and> c \<le> 0x200A) \<or> c = 0x2028 \<or> c = 0x2029 \<or>
     c = 0x202F \<or> c = 0x205F \<or> c = 0x3000 \<or> c = 0xFEFF"

definition trim :: "jsstring \<Rightarrow> jsstring" where
  "trim s = rev (dropWhile isWhiteSpace (rev (dropWhile isWhiteSpace s)))"

text \<open>
  \<open>s.split('\n')\<close>: the pieces of \<open>s\<close> between consecutive line feeds.  The result
  always has at least one element (\<open>''.split('\n')\<close> is \<open>['']\<close>).  \<open>cur\<close> holds the
  piece being read.
\<close>

primrec splitFrom :: "jsstring \<Rightarrow> jsstring \<Rightarrow> jsstring list" where
  "splitFrom cur [] = [cur]"
| "splitFrom cur (c # cs) =
     (if c = LF then cur # splitFrom [] cs else splitFrom (cur @ [c]) cs)"

definition split :: "jsstring \<Rightarrow> jsstring list" where
  "split s = splitFrom [] s"

text \<open>ASCII text as a JavaScript string, for writing concrete inputs.\<close>

definition js :: "string \<Rightarrow> jsstring" where
  "js s = map of_char s"

section \<open>List preparation (constants.ts)\<close>

subsection \<open>parseCsv\<close>

text \<open>
  \<^verbatim>\<open>const lines = csvString.trim().split('\n');\<close>
  \<^verbatim>\<open>return lines.slice(1).filter(name => name.trim() !== '');\<close>
\<close>

definition parseCsv :: "jsstring \<Rightarrow> jsstring list" where
  "parseCsv csvString =
     (let lines = split (trim csvString)
      in filter (\<lambda>name. trim name \<noteq> []) (drop 1 lines))"

subsection \<open>shuffleArray\<close>

text \<open>
  \<^verbatim>\<open>[newArr[i], newArr[j]] = [newArr[j], newArr[i]];\<close>
  The right-hand side is read first; then \<open>newArr[i]\<close> is written, then \<open>newArr[j]\<close>.
\<close>

definition swap :: "'a list \<Rightarrow> nat \<Rightarrow> nat \<Rightarrow> 'a list" where
  "swap newArr i j = (newArr[i := newArr ! j])[j := newArr ! i]"

text \<open>
  \<^verbatim>\<open>for (let i = newArr.length - 1; i > 0; i--) {\<close>
  \<^verbatim>\<open>    const j = Math.floor(Math.random() * (i + 1)); ... }\<close>
  The random source is an oracle \<open>rnd\<close>: \<open>rnd i\<close> is the value that
  \<open>Math.floor(Math.random() * (i + 1))\<close> takes in the iteration with loop variable \<open>i\<close>
  (each \<open>i\<close> is visited once).  \<open>Math.random()\<close> lies in \<open>[0, 1)\<close>, so the values the
  code can draw are those with \<open>rnd i \<le> i\<close>; for them every index the loop touches is
  below \<open>newArr.length\<close>.  (For an index outside the array the source would read
  \<open>undefined\<close> and lengthen the array; the model does not describe that case, and the
  statements about the contents of the result assume \<open>rnd i \<le> i\<close>.)  The second argument of the loop is \<open>i\<close>; for the empty array
  the start value \<open>newArr.length - 1\<close> is \<open>-1\<close> in the source and \<open>0\<close> here, and in both
  the body does not run.
\<close>

fun shuffleLoop :: "(nat \<Rightarrow> nat) \<Rightarrow> nat \<Rightarrow> 'a list \<Rightarrow> 'a list" where
  "shuffleLoop rnd 0 newArr = newArr"
| "shuffleLoop rnd (Suc k) newArr =
     (let i = Suc k; j = rnd i in shuffleLoop rnd k (swap newArr i j))"

definition shuffleArray :: "(nat \<Rightarrow> nat) \<Rightarrow> 'a list \<Rightarrow> 'a list" where
  "shuffleArray rnd array =
     (let newArr = array in shuffleLoop rnd (length newArr - 1) newArr)"

text \<open>
  The same function over an explicit store, where an array is a reference: the store is
  the list of all arrays allocated so far and a reference is a position in it.  The spread
  \<open>[...array]\<close> allocates a new array holding a copy of the elements; the loop then writes
  through the new reference only.
\<close>

type_synonym 'a store = "'a list list"

definition spread :: "nat \<Rightarrow> 'a store \<Rightarrow> nat \<times> 'a store" where
  "spread array st = (length st, st @ [st ! array])"

fun shuffleLoopRef :: "(nat \<Rightarrow> nat) \<Rightarrow> nat \<Rightarrow> nat \<Rightarrow> 'a store \<Rightarrow> 'a store" where
  "shuffleLoopRef rnd 0 newArr st = st"
| "shuffleLoopRef rnd (Suc k) newArr st =
     (let i = Suc k; j = rnd i
      in shuffleLoopRef rnd k newArr (st[newArr := swap (st ! newArr) i j]))"

definition shuffleArrayRef :: "(nat \<Rightarrow> nat) \<Rightarrow> nat \<Rightarrow> 'a store \<Rightarrow> nat \<times> 'a store" where
  "shuffleArrayRef rnd array st =
     (let (newArr, st1) = spread array st
      in (newArr, shuffleLoopRef rnd (length (st1 ! newArr) - 1) newArr st1))"

subsection \<open>fetchCsvWallOfNames\<close>

text \<open>
  The network is a parameter: \<open>fetch url\<close> either throws or yields a response, whose
  \<open>text()\<close> (the field \<open>text'\<close>) in turn either throws or yields the body.  \<open>console.error\<close> appends to a log.
  The result is the log together with the outcome of the call: \<open>Inl\<close> for an exception
  that reaches the caller, \<open>Inr\<close> for a returned array.
\<close>

datatype thrown = Thrown jsstring

record response =
  ok :: bool
  statusText :: jsstring
  text' :: "thrown + jsstring"

datatype logEntry =
    FailedToFetch jsstring jsstring
  | ErrorFetchingOrParsing jsstring thrown

text \<open>The body of the \<open>try\<close> block.\<close>

definition tryBlock ::
  "(jsstring \<Rightarrow> thrown + response) \<Rightarrow> (nat \<Rightarrow> nat) \<Rightarrow> jsstring
     \<Rightarrow> logEntry list \<times> (thrown + jsstring list)" where
  "tryBlock fetch rnd url =
     (case fetch url of
        Inl e \<Rightarrow> ([], Inl e)
      | Inr response \<Rightarrow>
          if \<not> ok response then ([FailedToFetch url (statusText response)], Inr [])
          else
            (case text' response of
               Inl e \<Rightarrow> ([], Inl e)
             | Inr csvString \<Rightarrow>
                 let preformattedNames = parseCsv csvString;
                     shuffledNames = shuffleArray rnd preformattedNames;
                     repeatedCsvNames = concat (replicate 20 shuffledNames)
                 in ([], Inr (repeatedCsvNames @ repeatedCsvNames))))"

text \<open>The parameter default \<open>url = './signers.csv'\<close> applies when no URL is passed.\<close>

definition urlOrDefault :: "jsstring option \<Rightarrow> jsstring" where
  "urlOrDefault urlArg = (case urlArg of None \<Rightarrow> js ''./signers.csv'' | Some u \<Rightarrow> u)"

definition fetchCsvWallOfNames ::
  "(jsstring \<Rightarrow> thrown + response) \<Rightarrow> (nat \<Rightarrow> nat) \<Rightarrow> jsstring option
     \<Rightarrow> logEntry list \<times> (thrown + jsstring list)" where
  "fetchCsvWallOfNames fetch rnd urlArg =
     (let url = urlOrDefault urlArg
      in case tryBlock fetch rnd url of
           (logged, Inl error) \<Rightarrow> (logged @ [ErrorFetchingOrParsing url error], Inr [])
         | (logged, Inr names) \<Rightarrow> (logged, Inr names))"

text \<open>Concrete networks, index choices and texts, used to run the definitions.\<close>

definition okFetch :: "jsstring \<Rightarrow> jsstring \<Rightarrow> thrown + response" where
  "okFetch body url = Inr \<lparr>ok = True, statusText = js ''OK'', text' = Inr body\<rparr>"

definition notFoundFetch :: "jsstring \<Rightarrow> thrown + response" where
  "notFoundFetch url = Inr \<lparr>ok = False, statusText = js ''Not Found'', text' = Inr []\<rparr>"

definition failingFetch :: "jsstring \<Rightarrow> thrown + response" where
  "failingFetch url = Inl (Thrown (js ''Failed to fetch''))"

definition brokenBodyFetch :: "jsstring \<Rightarrow> thrown + response" where
  "brokenBodyFetch url =
     Inr \<lparr>ok = True, statusText = js ''OK'',
          text' = Inl (Thrown (js ''body stream already read''))\<rparr>"

definition halfIndex :: "nat \<Rightarrow> nat" where
  "halfIndex i = i div 2"

definition aliceBobCsv :: jsstring where
  "aliceBobCsv = js ''name'' @ [LF] @ js ''Alice'' @ [LF] @ js ''Bob'' @ [LF] @ [LF]"


section \<open>Scroll engine (WallOfNames)\<close>

subsection \<open>One tick on the scroll container\<close>

text \<open>
  The scroll container as the code sees it: \<open>scrollTop\<close> is a number the code reads and
  writes, \<open>scrollHeight\<close> is read only.  The DOM declares \<open>scrollHeight\<close> as an integer
  (\<open>long\<close>) and \<open>scrollTop\<close> as a double; the values \<open>0\<close>, \<open>0.25\<close> and their sums are
  exact in binary floating point, so \<open>scrollTop\<close> is a rational here.  The element is a
  plain record: an assignment to \<open>scrollTop\<close> stores the value assigned.

  \<open>scrollTick\<close> is the body of \<open>if (scrollContainerRef.current) { ... }\<close> in \<open>scrollStep\<close>;
  \<open>resetDue\<close> is its condition
  \<open>scrollTop >= scrollHeight / 2\<close>, read from the element at every call.
\<close>

record element =
  scrollTop :: rat
  scrollHeight :: int

definition resetDue :: "element \<Rightarrow> bool" where
  "resetDue el \<longleftrightarrow> scrollTop el \<ge> of_int (scrollHeight el) / 2"

definition scrollTick :: "element \<Rightarrow> element" where
  "scrollTick el =
     (if resetDue el then el\<lparr>scrollTop := 0\<rparr>
      else el\<lparr>scrollTop := scrollTop el + 1 / 4\<rparr>)"

subsection \<open>The component and its scheduled frames\<close>

text \<open>
  \<open>PlaybackState\<close> is the boolean \<open>isPlaying\<close>: state of \<open>App\<close> and of
  \<open>SignersOverlay\<close>, prop of \<open>WallOfNames\<close>.
\<close>

record playback =
  isPlaying :: bool

text \<open>
  A mounted \<open>WallOfNames\<close> with the part of the browser it talks to: its two refs, the
  prop \<open>isPlaying\<close> of the last committed render, and the browser's list of animation
  frame callbacks.  Only \<open>scrollStep\<close> is ever registered, so the list holds handles.
  \<open>requestAnimationFrame\<close> increments the callback identifier and returns it as the new
  handle (so handles are positive); \<open>cancelAnimationFrame\<close> removes a handle from the
  list.
\<close>

record wall = playback +
  mounted :: bool
  scrollContainerRef :: "element option"
  animationFrameIdRef :: "nat option"
  frameCallbacks :: "nat list"
  frameCallbackId :: nat

definition requestAnimationFrame :: "wall \<Rightarrow> nat \<times> wall" where
  "requestAnimationFrame w =
     (let handle = Suc (frameCallbackId w)
      in (handle, w\<lparr>frameCallbacks := frameCallbacks w @ [handle],
                     frameCallbackId := handle\<rparr>))"

definition cancelAnimationFrame :: "nat \<Rightarrow> wall \<Rightarrow> wall" where
  "cancelAnimationFrame handle w = w\<lparr>frameCallbacks := removeAll handle (frameCallbacks w)\<rparr>"

definition scrollStep :: "wall \<Rightarrow> wall" where
  "scrollStep w =
     (let w1 = (case scrollContainerRef w of
                  None \<Rightarrow> w
                | Some el \<Rightarrow> w\<lparr>scrollContainerRef := Some (scrollTick el)\<rparr>);
          (handle, w2) = requestAnimationFrame w1
      in w2\<lparr>animationFrameIdRef := Some handle\<rparr>)"

text \<open>
  The body of the effect and the cleanup function it returns.
  \<open>if (animationFrameIdRef.current)\<close> is false for \<open>null\<close> and for \<open>0\<close>.
\<close>

definition effect :: "wall \<Rightarrow> wall" where
  "effect w =
     (if isPlaying w
      then (let (handle, w1) = requestAnimationFrame w
            in w1\<lparr>animationFrameIdRef := Some handle\<rparr>)
      else w)"

definition cleanup :: "wall \<Rightarrow> wall" where
  "cleanup w =
     (case animationFrameIdRef w of
        None \<Rightarrow> w
      | Some handle \<Rightarrow> if handle \<noteq> 0 then cancelAnimationFrame handle w else w)"

text \<open>
  What can happen to a mounted component.  \<open>Render p\<close>: React commits a render with
  \<open>isPlaying = p\<close>; the effect has the dependency list \<open>[isPlaying]\<close>, so when the value
  changed the previous cleanup runs and then the effect body.  \<open>Frame\<close>: the browser runs
  the animation frame callbacks: it takes the current list, empties it, and calls each
  callback.  \<open>Resize h\<close>: the layout changes the scrollable extent.  \<open>Unmount\<close>: React
  detaches the ref and runs the cleanup.
\<close>

datatype event = Render bool | Frame | Resize int | Unmount

fun step :: "event \<Rightarrow> wall \<Rightarrow> wall" where
  "step (Render p) w =
     (if mounted w \<and> p \<noteq> isPlaying w then effect ((cleanup w)\<lparr>isPlaying := p\<rparr>) else w)"
| "step Frame w =
     foldl (\<lambda>w' handle. scrollStep w') (w\<lparr>frameCallbacks := []\<rparr>) (frameCallbacks w)"
| "step (Resize h) w =
     w\<lparr>scrollContainerRef := map_option (\<lambda>el. el\<lparr>scrollHeight := h\<rparr>) (scrollContainerRef w)\<rparr>"
| "step Unmount w =
     (if mounted w then (cleanup w)\<lparr>mounted := False, scrollContainerRef := None\<rparr> else w)"

definition run :: "event list \<Rightarrow> wall \<Rightarrow> wall" where
  "run evs w = foldl (\<lambda>w' ev. step ev w') w evs"

text \<open>
  Mounting with prop \<open>p\<close>, on a container \<open>el\<close>, in a browser whose callback identifier
  stands at \<open>n\<close>: the refs are initialised and the effect runs.
\<close>

definition mount :: "bool \<Rightarrow> element \<Rightarrow> nat \<Rightarrow> wall" where
  "mount p el n =
     effect \<lparr>isPlaying = p, mounted = True, scrollContainerRef = Some el,
             animationFrameIdRef = None, frameCallbacks = [], frameCallbackId = n\<rparr>"

definition scrollCursor :: "wall \<Rightarrow> rat option" where
  "scrollCursor w = map_option scrollTop (scrollContainerRef w)"

text \<open>
  The scheduling invariant: a mounted, playing component has exactly one tick pending,
  the one whose handle is in \<open>animationFrameIdRef\<close>; otherwise nothing is pending.
\<close>

definition oneTickPending :: "wall \<Rightarrow> bool" where
  "oneTickPending w \<longleftrightarrow>
     (case animationFrameIdRef w of
        None \<Rightarrow> False
      | Some handle \<Rightarrow> handle \<noteq> 0 \<and> frameCallbacks w = [handle])"

definition wellScheduled :: "wall \<Rightarrow> bool" where
  "wellScheduled w \<longleftrightarrow>
     (if mounted w \<and> isPlaying w then oneTickPending w else frameCallbacks w = [])"

text \<open>Concrete containers and event sequences.\<close>

definition threePixels :: element where
  "threePixels = \<lparr>scrollTop = 0, scrollHeight = 3\<rparr>"

definition emptyContainer :: element where
  "emptyContainer = \<lparr>scrollTop = 0, scrollHeight = 0\<rparr>"

definition pausedAfterTwoFrames :: wall where
  "pausedAfterTwoFrames = run [Frame, Frame, Render False] (mount True threePixels 0)"

text \<open>
  The cursor invariant: the extent is not negative and the cursor is a whole number of
  increments (quarters).  A mounted component has its container.
\<close>

definition onGrid :: "element \<Rightarrow> bool" where
  "onGrid el \<longleftrightarrow> 0 \<le> scrollHeight el \<and> (\<exists>k::nat. scrollTop el = of_nat k / 4)"

definition containerOnGrid :: "wall \<Rightarrow> bool" where
  "containerOnGrid w \<longleftrightarrow>
     (case scrollContainerRef w of None \<Rightarrow> \<not> mounted w | Some c \<Rightarrow> onGrid c)"

definition shrunkWhilePlaying :: wall where
  "shrunkWhilePlaying = run [Frame, Frame, Frame, Frame, Resize 1] (mount True threePixels 0)"

section \<open>Playback state machine (App, SignersOverlay)\<close>

text \<open>
  The state of the inline variant \<open>App\<close> with the part of the page it talks to:
  \<open>prefersReducedMotion\<close> is what \<open>window.matchMedia('(prefers-reduced-motion:
  reduce)').matches\<close> yields when read now, \<open>keydownListeners\<close> counts the
  \<open>handleKeyDown\<close> closures registered on \<open>window\<close>, and \<open>calls\<close> records, in order,
  the calls the handlers and effects make.
\<close>

datatype call =
    PreventDefault
  | ToggleIsPlaying
  | DeriveIsPlaying
  | OnClose

record keyboardEvent =
  key :: string
  defaultPrevented :: bool

record app = playback +
  prefersReducedMotion :: bool
  keydownListeners :: nat
  calls :: "call list"

text \<open>\<^verbatim>\<open>setIsPlaying(prev => !prev)\<close>\<close>

definition togglePlay :: "'a app_scheme \<Rightarrow> 'a app_scheme" where
  "togglePlay s = s\<lparr>isPlaying := \<not> isPlaying s, calls := calls s @ [ToggleIsPlaying]\<rparr>"

text \<open>
  \<^verbatim>\<open>if (event.key === ' ' || event.key === 'Spacebar') {\<close>
  \<^verbatim>\<open>    event.preventDefault(); togglePlay(); }\<close>
\<close>

definition handleKeyDown ::
  "keyboardEvent \<Rightarrow> 'a app_scheme \<Rightarrow> keyboardEvent \<times> 'a app_scheme" where
  "handleKeyDown event s =
     (if key event = '' '' \<or> key event = ''Spacebar''
      then (let event1 = event\<lparr>defaultPrevented := True\<rparr>;
                s1 = s\<lparr>calls := calls s @ [PreventDefault]\<rparr>
            in (event1, togglePlay s1))
      else (event, s))"

text \<open>
  The name region of \<open>WallOfNames\<close>: \<open>onClick={onTogglePlay}\<close>, where the prop is
  optional; \<open>App\<close> and \<open>SignersOverlay\<close> both pass \<open>togglePlay\<close>.
\<close>

definition namesContainerClick :: "('s \<Rightarrow> 's) option \<Rightarrow> 's \<Rightarrow> 's" where
  "namesContainerClick onTogglePlay s = (case onTogglePlay of None \<Rightarrow> s | Some f \<Rightarrow> f s)"

text \<open>
  The second effect of \<open>App\<close> (dependency list \<open>[togglePlay]\<close>, a stable callback, so it
  runs on mount), its cleanup, and the mount itself from \<open>useState(true)\<close>.
\<close>

definition appEffect :: "app \<Rightarrow> app" where
  "appEffect s =
     (let s1 = s\<lparr>keydownListeners := Suc (keydownListeners s)\<rparr>;
          matches = prefersReducedMotion s1
      in s1\<lparr>isPlaying := \<not> matches, calls := calls s1 @ [DeriveIsPlaying]\<rparr>)"

definition appCleanup :: "app \<Rightarrow> app" where
  "appCleanup s = s\<lparr>keydownListeners := keydownListeners s - 1\<rparr>"

definition appMount :: "bool \<Rightarrow> app" where
  "appMount motion =
     appEffect \<lparr>isPlaying = True, prefersReducedMotion = motion,
                keydownListeners = 0, calls = []\<rparr>"

text \<open>
  A \<open>keydown\<close> on \<open>window\<close> runs every registered listener on the event.  A change of
  the operating system's preference changes what a later read yields; neither component
  registers a listener on the media query, so no code of theirs runs.
\<close>

definition keydown :: "keyboardEvent \<Rightarrow> app \<Rightarrow> keyboardEvent \<times> app" where
  "keydown event s = ((\<lambda>(e, s'). handleKeyDown e s') ^^ keydownListeners s) (event, s)"

definition motionPreferenceChanged :: "bool \<Rightarrow> 'a app_scheme \<Rightarrow> 'a app_scheme" where
  "motionPreferenceChanged b s = s\<lparr>prefersReducedMotion := b\<rparr>"

text \<open>
  What can happen to a mounted \<open>App\<close>: a key goes down, the name region or the
  play/pause button is clicked (both run \<open>togglePlay\<close>), the preference changes.  The
  effect's dependency list \<open>[togglePlay]\<close> never changes, so a re-render runs neither
  the cleanup nor the effect.
\<close>

datatype appEvent = AppKeyDown string | AppClick | AppMotion bool

fun appStep :: "appEvent \<Rightarrow> app \<Rightarrow> app" where
  "appStep (AppKeyDown k) s = snd (keydown \<lparr>key = k, defaultPrevented = False\<rparr> s)"
| "appStep AppClick s = namesContainerClick (Some togglePlay) s"
| "appStep (AppMotion b) s = motionPreferenceChanged b s"

definition appRun :: "appEvent list \<Rightarrow> app \<Rightarrow> app" where
  "appRun evs s = foldl (\<lambda>s' ev. appStep ev s') s evs"

text \<open>
  The overlay variant adds the props \<open>isVisible\<close> and \<open>onClose\<close>, the page's
  \<open>body.style.overflow\<close> and the timers set by \<open>closeAndReset\<close> (their delays, in
  milliseconds).  \<open>onClose\<close> is the parent's callback; the state holds its identity (a
  number that differs when the parent passes another function), and calling it is
  recorded as a call.
\<close>

record overlay = app +
  isVisible :: bool
  onClose :: nat
  bodyOverflow :: string
  timeouts :: "nat list"

definition closeAndReset :: "overlay \<Rightarrow> overlay" where
  "closeAndReset s = s\<lparr>calls := calls s @ [OnClose], timeouts := timeouts s @ [300]\<rparr>"

text \<open>The timer's callback: \<^verbatim>\<open>setIsPlaying(!mediaQuery.matches)\<close>.\<close>

definition timeoutFires :: "overlay \<Rightarrow> overlay" where
  "timeoutFires s =
     (case timeouts s of
        [] \<Rightarrow> s
      | t # ts \<Rightarrow>
          (let matches = prefersReducedMotion s
           in s\<lparr>timeouts := ts, isPlaying := \<not> matches, calls := calls s @ [DeriveIsPlaying]\<rparr>))"

text \<open>
  \<^verbatim>\<open>if (event.key === 'Escape') { closeAndReset(); }\<close>
  followed by the same spacebar branch as in \<open>App\<close>.
\<close>

definition overlayHandleKeyDown :: "keyboardEvent \<Rightarrow> overlay \<Rightarrow> keyboardEvent \<times> overlay" where
  "overlayHandleKeyDown event s =
     (let s1 = (if key event = ''Escape'' then closeAndReset s else s)
      in handleKeyDown event s1)"

text \<open>
  The effect of \<open>SignersOverlay\<close> and its cleanup.  The cleanup removes the listener of
  its own effect run, which was registered only when that run saw \<open>isVisible\<close>; it runs
  before the new prop values are stored.
\<close>

definition overlayEffect :: "overlay \<Rightarrow> overlay" where
  "overlayEffect s =
     (if isVisible s
      then (let s1 = s\<lparr>bodyOverflow := ''hidden''\<rparr>;
                s2 = s1\<lparr>keydownListeners := Suc (keydownListeners s1)\<rparr>;
                matches = prefersReducedMotion s2
            in s2\<lparr>isPlaying := \<not> matches, calls := calls s2 @ [DeriveIsPlaying]\<rparr>)
      else s\<lparr>bodyOverflow := []\<rparr>)"

definition overlayCleanup :: "overlay \<Rightarrow> overlay" where
  "overlayCleanup s =
     s\<lparr>keydownListeners := (if isVisible s then keydownListeners s - 1 else keydownListeners s),
       bodyOverflow := []\<rparr>"

text \<open>
  A render of \<open>SignersOverlay\<close> with the props \<open>isVisible = v\<close> and \<open>onClose = oc\<close>.
  \<open>closeAndReset\<close> is \<open>useCallback(..., [onClose])\<close>, a new function exactly when
  \<open>onClose\<close> is one; the effect's dependency list is
  \<open>[isVisible, closeAndReset, togglePlay]\<close> with \<open>togglePlay\<close> stable.  So the cleanup
  and the effect run exactly when \<open>v\<close> or \<open>oc\<close> differs from the previous render.
  The mount is the first render, from \<open>useState(true)\<close>, and runs the effect.
\<close>

definition overlayRender :: "bool \<Rightarrow> nat \<Rightarrow> overlay \<Rightarrow> overlay" where
  "overlayRender v oc s =
     (if v = isVisible s \<and> oc = onClose s then s
      else overlayEffect ((overlayCleanup s)\<lparr>isVisible := v, onClose := oc\<rparr>))"

definition overlayMount :: "bool \<Rightarrow> nat \<Rightarrow> bool \<Rightarrow> overlay" where
  "overlayMount v oc motion =
     overlayEffect
       \<lparr>isPlaying = True, prefersReducedMotion = motion, keydownListeners = 0, calls = [],
        isVisible = v, onClose = oc, bodyOverflow = [], timeouts = []\<rparr>"

definition overlayKeydown :: "keyboardEvent \<Rightarrow> overlay \<Rightarrow> keyboardEvent \<times> overlay" where
  "overlayKeydown event s =
     ((\<lambda>(e, s'). overlayHandleKeyDown e s') ^^ keydownListeners s) (event, s)"

text \<open>
  What can happen to a mounted \<open>SignersOverlay\<close>: the parent renders it with new props,
  a key goes down, the name region or the play/pause button is clicked, the close or the
  call-to-action button is clicked (both run \<open>closeAndReset\<close>), a timer fires, the
  preference changes.
\<close>

datatype overlayEvent =
    Rerender bool nat
  | KeyDown string
  | Click
  | Close
  | Timeout
  | Motion bool

fun overlayStep :: "overlayEvent \<Rightarrow> overlay \<Rightarrow> overlay" where
  "overlayStep (Rerender v oc) s = overlayRender v oc s"
| "overlayStep (KeyDown k) s = snd (overlayKeydown \<lparr>key = k, defaultPrevented = False\<rparr> s)"
| "overlayStep Click s = namesContainerClick (Some togglePlay) s"
| "overlayStep Close s = closeAndReset s"
| "overlayStep Timeout s = timeoutFires s"
| "overlayStep (Motion b) s = motionPreferenceChanged b s"

definition overlayRun :: "overlayEvent list \<Rightarrow> overlay \<Rightarrow> overlay" where
  "overlayRun evs s = foldl (\<lambda>s' ev. overlayStep ev s') s evs"

text \<open>
  The listener invariant of the overlay: one \<open>keydown\<close> listener while visible, none
  while hidden.
\<close>

definition listening :: "overlay \<Rightarrow> bool" where
  "listening s \<longleftrightarrow> keydownListeners s = (if isVisible s then 1 else 0)"

text \<open>Concrete events and states.\<close>

definition spaceKey :: keyboardEvent where
  "spaceKey = \<lparr>key = '' '', defaultPrevented = False\<rparr>"

definition toggledApp :: app where
  "toggledApp = appRun [AppKeyDown '' '', AppMotion True, AppClick] (appMount False)"

definition reopenedOverlay :: overlay where
  "reopenedOverlay =
     overlayRun [Rerender True 0, KeyDown ''Escape'', Rerender False 0, Timeout, Rerender True 1]
       (overlayMount False 0 True)"

definition pausedVisibleOverlay :: overlay where
  "pausedVisibleOverlay = overlayRun [KeyDown '' ''] (overlayMount True 0 False)"

section \<open>Properties of list preparation\<close>

subsection \<open>parseCsv\<close>

lemma trim_Nil [simp]: "trim [] = []"
  by (simp add: trim_def)




lemma parse_aliceBob: "parseCsv aliceBobCsv = [js ''Alice'', js ''Bob'']"
  by code_simp





subsection \<open>shuffleArray\<close>

lemma length_swap [simp]: "length (swap xs i j) = length xs"
  by (simp add: swap_def)

lemma mset_swap_in_range:
  "i < length xs \<Longrightarrow> j < length xs \<Longrightarrow> mset (swap xs i j) = mset xs"
  unfolding swap_def by (rule mset_swap)

lemma length_shuffleLoop [simp]: "length (shuffleLoop rnd k xs) = length xs"
  by (induction k arbitrary: xs) (simp_all add: Let_def)

lemma mset_shuffleLoop:
  "\<forall>i. rnd i \<le> i \<Longrightarrow> k < length xs \<Longrightarrow> mset (shuffleLoop rnd k xs) = mset xs"
proof (induction k arbitrary: xs)
  case 0
  then show ?case by simp
next
  case (Suc k)
  have j: "rnd (Suc k) < length xs"
    using Suc.prems by (meson le_less_trans)
  have "mset (shuffleLoop rnd k (swap xs (Suc k) (rnd (Suc k))))
          = mset (swap xs (Suc k) (rnd (Suc k)))"
    using Suc.prems by (intro Suc.IH) simp_all
  also have "\<dots> = mset xs"
    using Suc.prems(2) j by (rule mset_swap_in_range)
  finally show ?case by (simp add: Let_def)
qed

lemma shuffleArray_perm:
  assumes "\<forall>i. rnd i \<le> i"
  shows "length (shuffleArray rnd array) = length array \<and>
         mset (shuffleArray rnd array) = mset array"
proof (cases array)
  case Nil
  then show ?thesis by (simp add: shuffleArray_def)
next
  case (Cons a as)
  then have "length array - 1 < length array" by simp
  with assms show ?thesis
    by (simp add: shuffleArray_def mset_shuffleLoop)
qed

text \<open>
  Claim C4.  For every input list and every choice of indices with \<open>j \<le> i\<close> in the
  iteration with loop variable \<open>i\<close>, the list returned by \<open>shuffleArray\<close> has the length
  of the input and the same multiset of elements.
\<close>

theorem shuffleArray_permutation:
  assumes "\<forall>i. rnd i \<le> i"
  shows "length (shuffleArray rnd array) = length array \<and>
         mset (shuffleArray rnd array) = mset array"
proof
  show "length (shuffleArray rnd array) = length array"
    by (simp add: shuffleArray_def)
next
  show "mset (shuffleArray rnd array) = mset array"
  proof (cases "array = []")
    case True
    then show ?thesis by (simp add: shuffleArray_def)
  next
    case False
    then have "length array - 1 < length array" by simp
    with assms have "mset (shuffleLoop rnd (length array - 1) array) = mset array"
      by (rule mset_shuffleLoop)
    then show ?thesis by (simp add: shuffleArray_def)
  qed
qed

theorem shuffleArray_permutation_witness:
  "(\<forall>i. halfIndex i \<le> i) \<and>
   shuffleArray halfIndex [1, 2, 3, 4 :: nat] = [3, 1, 4, 2] \<and>
   length (shuffleArray halfIndex [1, 2, 3, 4 :: nat]) = length [1, 2, 3, 4 :: nat] \<and>
   mset (shuffleArray halfIndex [1, 2, 3, 4 :: nat]) = mset [1, 2, 3, 4 :: nat]"
proof -
  have h: "\<forall>i. halfIndex i \<le> i" by (simp add: halfIndex_def)
  have v: "shuffleArray halfIndex [1, 2, 3, 4 :: nat] = [3, 1, 4, 2]" by code_simp
  from h v shuffleArray_permutation [OF h, of "[1, 2, 3, 4 :: nat]"] show ?thesis by simp
qed

lemma shuffleLoopRef_eq:
  "p < length st \<Longrightarrow> shuffleLoopRef rnd k p st = st[p := shuffleLoop rnd k (st ! p)]"
  by (induction k arbitrary: st) (simp_all add: Let_def)

text \<open>
  Claim C9.  \<open>shuffleArray\<close> leaves its argument as it was.  In the store after the
  call, the array behind the argument reference, and every other array that existed
  before, holds what it held; the returned reference is not the argument and is not a
  reference of the store before the call, so the result is a freshly built array; it
  holds the shuffled elements.
\<close>

theorem shuffleArrayRef_frame:
  assumes "array < length st"
  shows "case shuffleArrayRef rnd array st of
           (newArr, st') \<Rightarrow>
             st' ! array = st ! array \<and>
             (\<forall>a < length st. st' ! a = st ! a) \<and>
             newArr \<noteq> array \<and> \<not> newArr < length st \<and>
             length st' = Suc (length st) \<and>
             st' ! newArr = shuffleArray rnd (st ! array)"
proof -
  let ?st1 = "st @ [st ! array]"
  have eq: "shuffleArrayRef rnd array st
          = (length st, ?st1[length st := shuffleLoop rnd (length (st ! array) - 1) (st ! array)])"
    by (simp add: shuffleArrayRef_def spread_def shuffleLoopRef_eq)
  show ?thesis
    unfolding eq using assms
    by (auto simp: shuffleArray_def nth_append Let_def)
qed

theorem shuffleArrayRef_frame_witness:
  "(0::nat) < length [[1, 2, 3, 4 :: nat]] \<and>
   shuffleArrayRef halfIndex 0 [[1, 2, 3, 4 :: nat]] = (1, [[1, 2, 3, 4], [3, 1, 4, 2]])"
proof -
  have h: "(0::nat) < length [[1, 2, 3, 4 :: nat]]" by simp
  have v: "shuffleArrayRef halfIndex 0 [[1, 2, 3, 4 :: nat]] = (1, [[1, 2, 3, 4], [3, 1, 4, 2]])"
    by code_simp
  from shuffleArrayRef_frame [OF h, of halfIndex] h v show ?thesis by simp
qed

subsection \<open>fetchCsvWallOfNames\<close>

lemma length_concat_replicate: "length (concat (replicate n xs)) = n * length xs"
  by (induction n) simp_all

text \<open>
  Claim C1.  On a successful fetch of a text whose parsed data has \<open>N\<close> rows, and for
  index choices the random source can produce, \<open>fetchCsvWallOfNames\<close> returns (and logs
  nothing) a sequence of length \<open>2 * 20 * N\<close> whose first half equals its second half.
\<close>

theorem fetchCsvWallOfNames_prepared:
  assumes "fetch (urlOrDefault urlArg) = Inr response" and "ok response"
    and "text' response = Inr csvString" and "\<forall>i. rnd i \<le> i"
  shows "\<exists>names. fetchCsvWallOfNames fetch rnd urlArg = ([], Inr names) \<and>
           length names = 2 * 20 * length (parseCsv csvString) \<and>
           take (length names div 2) names = drop (length names div 2) names"
proof -
  let ?r = "concat (replicate 20 (shuffleArray rnd (parseCsv csvString)))"
  have res: "fetchCsvWallOfNames fetch rnd urlArg = ([], Inr (?r @ ?r))"
    using assms(1-3) by (simp add: fetchCsvWallOfNames_def tryBlock_def Let_def)
  have len: "length ?r = 20 * length (parseCsv csvString)"
    using assms(4) by (simp add: length_concat_replicate shuffleArray_perm)
  then have "length (?r @ ?r) div 2 = length ?r" by simp
  then have "take (length (?r @ ?r) div 2) (?r @ ?r) = drop (length (?r @ ?r) div 2) (?r @ ?r)"
    by simp
  with res len show ?thesis by simp
qed

text \<open>The text \<open>name\nAlice\nBob\n\n\<close> has two rows and gives a sequence of length 80.\<close>

theorem fetchCsvWallOfNames_prepared_witness:
  "\<exists>names. fetchCsvWallOfNames (okFetch aliceBobCsv) halfIndex None = ([], Inr names) \<and>
           length names = 80 \<and> take 40 names = drop 40 names"
proof -
  have h: "\<forall>i. halfIndex i \<le> i" by (simp add: halfIndex_def)
  show ?thesis
    using fetchCsvWallOfNames_prepared
            [where fetch = "okFetch aliceBobCsv" and urlArg = None and rnd = halfIndex
               and response = "\<lparr>ok = True, statusText = js ''OK'', text' = Inr aliceBobCsv\<rparr>"
               and csvString = aliceBobCsv] h
    by (auto simp: okFetch_def parse_aliceBob)
qed

text \<open>
  Claim C5, as the code has it.  \<open>fetchCsvWallOfNames\<close> never throws to its caller: it
  always returns an array.  When \<open>fetch\<close> throws, when the response is not a success and
  when \<open>text()\<close> throws, it returns the empty array and writes one entry to the error log.
  When the fetch succeeds and the text has no data rows (in particular when it is empty),
  it returns the empty array and writes nothing to the error log.
\<close>

theorem fetchCsvWallOfNames_failure_policy:
  "(\<exists>logged names. fetchCsvWallOfNames fetch rnd urlArg = (logged, Inr names)) \<and>
   (fetch (urlOrDefault urlArg) = Inl e \<longrightarrow>
      fetchCsvWallOfNames fetch rnd urlArg
        = ([ErrorFetchingOrParsing (urlOrDefault urlArg) e], Inr [])) \<and>
   (fetch (urlOrDefault urlArg) = Inr response \<and> \<not> ok response \<longrightarrow>
      fetchCsvWallOfNames fetch rnd urlArg
        = ([FailedToFetch (urlOrDefault urlArg) (statusText response)], Inr [])) \<and>
   (fetch (urlOrDefault urlArg) = Inr response \<and> ok response \<and> text' response = Inl e \<longrightarrow>
      fetchCsvWallOfNames fetch rnd urlArg
        = ([ErrorFetchingOrParsing (urlOrDefault urlArg) e], Inr [])) \<and>
   (fetch (urlOrDefault urlArg) = Inr response \<and> ok response \<and>
      text' response = Inr csvString \<and> parseCsv csvString = [] \<longrightarrow>
      fetchCsvWallOfNames fetch rnd urlArg = ([], Inr []))"
  by (auto simp: fetchCsvWallOfNames_def tryBlock_def Let_def shuffleArray_def
           split: sum.splits prod.splits)

text \<open>
  The four cases on concrete networks: a fetch that throws, a 404 response, a body that
  cannot be read, and a text with a header only.
\<close>

theorem fetchCsvWallOfNames_failure_policy_witness:
  "fetchCsvWallOfNames failingFetch halfIndex None
     = ([ErrorFetchingOrParsing (js ''./signers.csv'') (Thrown (js ''Failed to fetch''))], Inr []) \<and>
   fetchCsvWallOfNames notFoundFetch halfIndex None
     = ([FailedToFetch (js ''./signers.csv'') (js ''Not Found'')], Inr []) \<and>
   fetchCsvWallOfNames brokenBodyFetch halfIndex None
     = ([ErrorFetchingOrParsing (js ''./signers.csv'') (Thrown (js ''body stream already read''))],
        Inr []) \<and>
   fetchCsvWallOfNames (okFetch (js ''name'')) halfIndex None = ([], Inr [])"
proof -
  have p: "parseCsv (js ''name'') = []" by code_simp
  show ?thesis
    using fetchCsvWallOfNames_failure_policy
            [of failingFetch halfIndex None "Thrown (js ''Failed to fetch'')"]
          fetchCsvWallOfNames_failure_policy
            [of notFoundFetch halfIndex None _
                "\<lparr>ok = False, statusText = js ''Not Found'', text' = Inr []\<rparr>"]
          fetchCsvWallOfNames_failure_policy
            [of brokenBodyFetch halfIndex None "Thrown (js ''body stream already read'')"
                "\<lparr>ok = True, statusText = js ''OK'',
                  text' = Inl (Thrown (js ''body stream already read''))\<rparr>"]
          fetchCsvWallOfNames_failure_policy
            [of "okFetch (js ''name'')" halfIndex None _
                "\<lparr>ok = True, statusText = js ''OK'', text' = Inr (js ''name'')\<rparr>" "js ''name''"]
    by (simp add: failingFetch_def notFoundFetch_def brokenBodyFetch_def okFetch_def
          urlOrDefault_def p)
qed

text \<open>
  The claim as written says that an empty source is reported to the error log.  On a
  successful fetch of the empty text the result is the empty array and the log is empty.
\<close>

theorem fetchCsvWallOfNames_empty_source_counterexample:
  "fetchCsvWallOfNames (okFetch []) halfIndex None = ([], Inr [])"
  by (simp add: fetchCsvWallOfNames_def tryBlock_def okFetch_def parseCsv_def split_def
        shuffleArray_def)

section \<open>Properties of the scroll engine\<close>

subsection \<open>Ticks\<close>

lemma scrollHeight_scrollTick [simp]: "scrollHeight (scrollTick el) = scrollHeight el"
  by (simp add: scrollTick_def)

lemma scrollTop_scrollTick:
  "scrollTop (scrollTick el) = (if resetDue el then 0 else scrollTop el + 1 / 4)"
  by (simp add: scrollTick_def)

lemma scrollHeight_ticks [simp]: "scrollHeight ((scrollTick ^^ n) el) = scrollHeight el"
  by (induction n) simp_all

text \<open>On a cursor of \<open>k\<close> quarters and an extent \<open>h\<close>, the reset is due exactly when \<open>2h \<le> k\<close>.\<close>

lemma resetDue_quarters:
  "scrollHeight el = int h \<Longrightarrow> scrollTop el = of_nat k / 4 \<Longrightarrow> resetDue el \<longleftrightarrow> 2 * h \<le> k"
proof -
  assume a: "scrollHeight el = int h" "scrollTop el = of_nat k / 4"
  have "resetDue el \<longleftrightarrow> (of_nat h / 2 :: rat) \<le> of_nat k / 4"
    unfolding resetDue_def a by simp
  also have "\<dots> \<longleftrightarrow> (of_nat (2 * h) :: rat) \<le> of_nat k"
    by auto
  finally show ?thesis by (simp only: of_nat_le_iff)
qed

text \<open>The cursor after \<open>n\<close> ticks from \<open>0\<close>: it counts quarters modulo \<open>2h + 1\<close>.\<close>

lemma scrollTop_ticks:
  assumes "scrollHeight el = int h" and "scrollTop el = 0"
  shows "scrollTop ((scrollTick ^^ n) el) = of_nat (n mod Suc (2 * h)) / 4"
proof (induction n)
  case 0
  with assms show ?case by simp
next
  case (Suc n)
  let ?x = "(scrollTick ^^ n) el" and ?k = "n mod Suc (2 * h)"
  have H: "scrollHeight ?x = int h" using assms(1) by simp
  have k: "?k < Suc (2 * h)" by simp
  show ?case
  proof (cases "2 * h \<le> ?k")
    case True
    then have "resetDue ?x" using resetDue_quarters [OF H Suc.IH] by simp
    moreover from True k have "Suc ?k = Suc (2 * h)" by linarith
    ultimately show ?thesis by (simp add: scrollTop_scrollTick mod_Suc)
  next
    case False
    then have "\<not> resetDue ?x" using resetDue_quarters [OF H Suc.IH] by simp
    moreover from False have "Suc ?k \<noteq> Suc (2 * h)" by linarith
    ultimately show ?thesis using Suc.IH by (simp add: scrollTop_scrollTick mod_Suc field_simps)
  qed
qed

lemma zero_extent_tick:
  "scrollHeight el = 0 \<Longrightarrow> scrollTop el = 0 \<Longrightarrow> resetDue el \<and> scrollTick el = el"
  by (simp add: resetDue_def scrollTick_def)

lemma zero_extent_ticks:
  assumes "scrollHeight el = 0" and "scrollTop el = 0"
  shows "(scrollTick ^^ n) el = el"
  by (induction n) (simp_all add: zero_extent_tick [OF assms])

subsection \<open>Scheduling\<close>

lemma wellScheduled_effect:
  "frameCallbacks w = [] \<Longrightarrow> mounted w \<Longrightarrow> wellScheduled (effect w)"
  by (simp add: wellScheduled_def effect_def requestAnimationFrame_def oneTickPending_def Let_def)

lemma frameCallbacks_cleanup:
  "wellScheduled w \<Longrightarrow> frameCallbacks (cleanup w) = []"
  by (auto simp: wellScheduled_def cleanup_def cancelAnimationFrame_def oneTickPending_def
           split: option.splits if_splits)

lemma cleanup_fields [simp]:
  "mounted (cleanup w) = mounted w" "isPlaying (cleanup w) = isPlaying w"
  "scrollContainerRef (cleanup w) = scrollContainerRef w"
  by (simp_all add: cleanup_def cancelAnimationFrame_def split: option.splits)

lemma mount_fields:
  "mounted (mount p el n)" "isPlaying (mount p el n) = p"
  "scrollContainerRef (mount p el n) = Some el"
  by (simp_all add: mount_def effect_def requestAnimationFrame_def Let_def)

lemma wellScheduled_mount: "wellScheduled (mount p el n)"
  unfolding mount_def by (rule wellScheduled_effect) simp_all

lemma step_Frame_idle:
  "frameCallbacks w = [] \<Longrightarrow> step Frame w = w"
  by simp

lemma step_Frame_pending:
  "frameCallbacks w = [h] \<Longrightarrow> step Frame w = scrollStep (w\<lparr>frameCallbacks := []\<rparr>)"
  by simp

lemma scrollStep_fields:
  "mounted (scrollStep w) = mounted w" "isPlaying (scrollStep w) = isPlaying w"
  "scrollContainerRef (scrollStep w) = map_option scrollTick (scrollContainerRef w)"
  by (simp_all add: scrollStep_def requestAnimationFrame_def Let_def split: option.splits)

lemma oneTickPending_scrollStep:
  "frameCallbacks w = [] \<Longrightarrow> oneTickPending (scrollStep w)"
  by (simp add: scrollStep_def requestAnimationFrame_def oneTickPending_def Let_def
           split: option.splits)

text \<open>Every event keeps the scheduling invariant.\<close>

lemma wellScheduled_step:
  assumes "wellScheduled w"
  shows "wellScheduled (step ev w)"
proof (cases ev)
  case (Render p)
  show ?thesis
  proof (cases "mounted w \<and> p \<noteq> isPlaying w")
    case True
    have "frameCallbacks ((cleanup w)\<lparr>isPlaying := p\<rparr>) = []"
      using assms by (simp add: frameCallbacks_cleanup)
    then have "wellScheduled (effect ((cleanup w)\<lparr>isPlaying := p\<rparr>))"
      using True by (intro wellScheduled_effect) simp_all
    with True Render show ?thesis by simp
  next
    case False
    with Render assms show ?thesis by auto
  qed
next
  case Frame
  show ?thesis
  proof (cases "mounted w \<and> isPlaying w")
    case True
    with assms obtain h where h: "frameCallbacks w = [h]"
      by (auto simp: wellScheduled_def oneTickPending_def split: option.splits)
    have "oneTickPending (scrollStep (w\<lparr>frameCallbacks := []\<rparr>))"
      by (rule oneTickPending_scrollStep) simp
    with True show ?thesis
      unfolding Frame step_Frame_pending [OF h]
      by (simp add: wellScheduled_def scrollStep_fields)
  next
    case False
    with assms have "frameCallbacks w = []" by (auto simp: wellScheduled_def)
    with Frame assms show ?thesis by (simp only: step_Frame_idle)
  qed
next
  case (Resize h)
  with assms show ?thesis
    by (auto simp: wellScheduled_def oneTickPending_def split: option.splits if_splits)
next
  case Unmount
  with assms show ?thesis
    using frameCallbacks_cleanup [OF assms] by (auto simp: wellScheduled_def)
qed

lemma wellScheduled_run: "wellScheduled w \<Longrightarrow> wellScheduled (run evs w)"
  unfolding run_def by (induction evs arbitrary: w) (simp_all add: wellScheduled_step)

lemma run_Frames_idle: "frameCallbacks w = [] \<Longrightarrow> run (replicate k Frame) w = w"
  unfolding run_def by (induction k) (simp_all add: step_Frame_idle del: step.simps)

text \<open>While the component is mounted and playing, a frame is one tick.\<close>

lemma step_Frame_playing:
  assumes "wellScheduled w" and "mounted w" and "isPlaying w"
  shows "wellScheduled (step Frame w) \<and> mounted (step Frame w) \<and> isPlaying (step Frame w) \<and>
         scrollContainerRef (step Frame w) = map_option scrollTick (scrollContainerRef w)"
proof -
  from assms obtain h where h: "frameCallbacks w = [h]"
    by (auto simp: wellScheduled_def oneTickPending_def split: option.splits)
  have "wellScheduled (step Frame w)" using assms(1) by (rule wellScheduled_step)
  moreover have "mounted (step Frame w)" "isPlaying (step Frame w)"
    "scrollContainerRef (step Frame w) = map_option scrollTick (scrollContainerRef w)"
    unfolding step_Frame_pending [OF h] using assms(2,3) by (simp_all add: scrollStep_fields)
  ultimately show ?thesis by simp
qed

lemma run_Frames_playing:
  assumes "wellScheduled w" and "mounted w" and "isPlaying w"
    and "scrollContainerRef w = Some el"
  shows "scrollContainerRef (run (replicate k Frame) w) = Some ((scrollTick ^^ k) el)"
  using assms
proof (induction k arbitrary: w el)
  case 0
  then show ?case by (simp add: run_def)
next
  case (Suc k)
  note f = step_Frame_playing [OF Suc.prems(1-3)]
  have "scrollContainerRef (step Frame w) = Some (scrollTick el)"
    using f Suc.prems(4) by simp
  with f have "scrollContainerRef (run (replicate k Frame) (step Frame w))
                 = Some ((scrollTick ^^ k) (scrollTick el))"
    by (intro Suc.IH) simp_all
  then show ?case
    by (simp add: run_def funpow_swap1 del: step.simps)
qed

lemma scrollCursor_playing:
  "scrollCursor (run (replicate k Frame) (mount True el n))
     = Some (scrollTop ((scrollTick ^^ k) el))"
  using run_Frames_playing [OF wellScheduled_mount, of True el n el k]
  by (simp add: mount_fields scrollCursor_def)

subsection \<open>The cursor stays within half the extent\<close>

text \<open>A tick keeps the cursor on the grid of quarters and within half the extent it read.\<close>

lemma onGrid_start: "0 \<le> scrollHeight el \<Longrightarrow> scrollTop el = 0 \<Longrightarrow> onGrid el"
proof -
  assume a: "0 \<le> scrollHeight el" "scrollTop el = 0"
  have "scrollTop el = of_nat 0 / 4" using a(2) by simp
  with a(1) show ?thesis unfolding onGrid_def by blast
qed

lemma onGrid_scrollTick:
  assumes "onGrid el"
  shows "onGrid (scrollTick el) \<and> scrollTop (scrollTick el) \<le> of_int (scrollHeight el) / 2"
proof -
  from assms obtain k :: nat where k: "scrollTop el = of_nat k / 4" and H: "0 \<le> scrollHeight el"
    unfolding onGrid_def by blast
  from H obtain h where h: "scrollHeight el = int h" by (metis nonneg_int_cases)
  show ?thesis
  proof (cases "resetDue el")
    case True
    then have top: "scrollTop (scrollTick el) = of_nat 0 / 4" by (simp add: scrollTop_scrollTick)
    then have "onGrid (scrollTick el)" using H unfolding onGrid_def by (metis scrollHeight_scrollTick)
    moreover have "scrollTop (scrollTick el) \<le> of_int (scrollHeight el) / 2"
      using top h by simp
    ultimately show ?thesis by simp
  next
    case False
    then have top: "scrollTop (scrollTick el) = of_nat (Suc k) / 4"
      using k by (simp add: scrollTop_scrollTick field_simps)
    then have "onGrid (scrollTick el)" using H unfolding onGrid_def by (metis scrollHeight_scrollTick)
    moreover have "scrollTop (scrollTick el) \<le> of_int (scrollHeight el) / 2"
    proof -
      from False have "\<not> 2 * h \<le> k" using resetDue_quarters [OF h k] by simp
      then have "Suc k \<le> 2 * h" by simp
      then have "(of_nat (Suc k) :: rat) \<le> of_nat (2 * h)" by (simp only: of_nat_le_iff)
      then show ?thesis unfolding top h by simp
    qed
    ultimately show ?thesis by simp
  qed
qed

lemma onGrid_resize: "onGrid c \<Longrightarrow> 0 \<le> h \<Longrightarrow> onGrid (c\<lparr>scrollHeight := h\<rparr>)"
  by (simp add: onGrid_def)

lemma effect_fields [simp]:
  "mounted (effect w) = mounted w" "scrollContainerRef (effect w) = scrollContainerRef w"
  by (simp_all add: effect_def requestAnimationFrame_def Let_def)

lemma containerOnGrid_scrollStep:
  "containerOnGrid w \<Longrightarrow> containerOnGrid (scrollStep w)"
  by (cases "scrollContainerRef w")
     (simp_all add: containerOnGrid_def scrollStep_fields onGrid_scrollTick)

lemma containerOnGrid_step:
  assumes "wellScheduled w" and "containerOnGrid w" and "\<And>h. ev = Resize h \<Longrightarrow> 0 \<le> h"
  shows "containerOnGrid (step ev w)"
proof (cases ev)
  case (Render p)
  with assms(2) show ?thesis by (auto simp: containerOnGrid_def split: option.splits)
next
  case Frame
  show ?thesis
  proof (cases "frameCallbacks w")
    case Nil
    with Frame assms(2) show ?thesis by (simp only: step_Frame_idle)
  next
    case (Cons h hs)
    with assms(1) have one: "frameCallbacks w = [h]"
      by (auto simp: wellScheduled_def oneTickPending_def split: option.splits if_splits)
    have "containerOnGrid (w\<lparr>frameCallbacks := []\<rparr>)"
      using assms(2) by (simp add: containerOnGrid_def split: option.splits)
    then show ?thesis
      unfolding Frame step_Frame_pending [OF one] by (rule containerOnGrid_scrollStep)
  qed
next
  case (Resize h)
  with assms(3) have "0 \<le> h" by simp
  with Resize assms(2) show ?thesis
    by (cases "scrollContainerRef w") (simp_all add: containerOnGrid_def onGrid_resize)
next
  case Unmount
  with assms(2) show ?thesis by (simp add: containerOnGrid_def split: option.splits)
qed

lemma invariants_run:
  assumes "wellScheduled w" and "containerOnGrid w"
    and "\<forall>h. Resize h \<in> set evs \<longrightarrow> 0 \<le> h"
  shows "wellScheduled (run evs w) \<and> containerOnGrid (run evs w)"
  using assms
proof (induction evs arbitrary: w)
  case Nil
  then show ?case by (simp add: run_def)
next
  case (Cons ev evs)
  have "wellScheduled (step ev w)" using Cons.prems(1) by (rule wellScheduled_step)
  moreover have "containerOnGrid (step ev w)"
    using Cons.prems by (intro containerOnGrid_step) auto
  moreover have "\<forall>h. Resize h \<in> set evs \<longrightarrow> 0 \<le> h" using Cons.prems(3) by simp
  ultimately have "wellScheduled (run evs (step ev w)) \<and> containerOnGrid (run evs (step ev w))"
    by (rule Cons.IH)
  then show ?case by (simp add: run_def del: step.simps)
qed

lemma containerOnGrid_mount: "onGrid el \<Longrightarrow> containerOnGrid (mount p el n)"
  by (simp add: containerOnGrid_def mount_fields)

lemma shrunk_value:
  "shrunkWhilePlaying =
     \<lparr>isPlaying = True, mounted = True,
      scrollContainerRef = Some \<lparr>scrollTop = 1, scrollHeight = 1\<rparr>,
      animationFrameIdRef = Some 5, frameCallbacks = [5], frameCallbackId = 5\<rparr>"
  by code_simp

text \<open>
  Claim C2, as the code has it.  Take any state \<open>w\<close> that a component, mounted on a
  container with cursor \<open>0\<close> and extent \<open>H \<ge> 0\<close>, reaches through renders, frames,
  resizes to extents that are not negative, and unmount.  If \<open>w\<close> is mounted and playing,
  the next frame runs exactly one tick on its container; the tick reads the extent the
  container has at that moment, after it the cursor is at most half that extent, and
  if the cursor had reached half the extent before the tick, the tick resets it to
  \<open>0\<close>.  While the extent stays \<open>H\<close>, the cursor is at most \<open>H / 2\<close> after any number
  of ticks; after \<open>2H\<close> ticks (an accumulated increment of \<open>H / 2\<close>) it stands at
  \<open>H / 2\<close>, and the next tick resets it to \<open>0\<close>.
\<close>

theorem scrollTick_bound_after_every_tick:
  assumes "0 \<le> scrollHeight el" and "scrollTop el = 0"
    and "\<forall>h. Resize h \<in> set evs \<longrightarrow> 0 \<le> h"
    and "w = run evs (mount p el n)"
  shows "(mounted w \<and> isPlaying w \<longrightarrow>
            (\<exists>c. scrollContainerRef w = Some c \<and>
                 scrollContainerRef (step Frame w) = Some (scrollTick c) \<and>
                 scrollTop (scrollTick c) \<le> of_int (scrollHeight c) / 2 \<and>
                 (of_int (scrollHeight c) / 2 \<le> scrollTop c \<longrightarrow> scrollTop (scrollTick c) = 0))) \<and>
         (\<forall>k. scrollCursor (run (replicate k Frame) (mount True el n))
                = Some (scrollTop ((scrollTick ^^ k) el))) \<and>
         (\<forall>k. scrollTop ((scrollTick ^^ k) el) \<le> of_int (scrollHeight el) / 2) \<and>
         scrollTop ((scrollTick ^^ nat (2 * scrollHeight el)) el) = of_int (scrollHeight el) / 2 \<and>
         scrollTop ((scrollTick ^^ Suc (nat (2 * scrollHeight el))) el) = 0"
proof -
  have inv: "wellScheduled w \<and> containerOnGrid w"
    unfolding assms(4) using assms(1-3)
    by (intro invariants_run wellScheduled_mount containerOnGrid_mount onGrid_start)
  have first: "\<exists>c. scrollContainerRef w = Some c \<and>
                 scrollContainerRef (step Frame w) = Some (scrollTick c) \<and>
                 scrollTop (scrollTick c) \<le> of_int (scrollHeight c) / 2 \<and>
                 (of_int (scrollHeight c) / 2 \<le> scrollTop c \<longrightarrow> scrollTop (scrollTick c) = 0)"
    if mp: "mounted w" "isPlaying w"
  proof -
    from inv mp(1) obtain c where c: "scrollContainerRef w = Some c" and g: "onGrid c"
      by (auto simp: containerOnGrid_def split: option.splits)
    have "scrollContainerRef (step Frame w) = Some (scrollTick c)"
      using step_Frame_playing [of w] inv mp c by simp
    moreover have "scrollTop (scrollTick c) \<le> of_int (scrollHeight c) / 2"
      using onGrid_scrollTick [OF g] by simp
    moreover have "of_int (scrollHeight c) / 2 \<le> scrollTop c \<longrightarrow> scrollTop (scrollTick c) = 0"
      by (simp add: scrollTop_scrollTick resetDue_def)
    ultimately show ?thesis using c by blast
  qed
  obtain h where h: "scrollHeight el = int h"
    using assms(1) by (metis nonneg_int_cases)
  have top: "scrollTop ((scrollTick ^^ k) el) = of_nat (k mod Suc (2 * h)) / 4" for k
    using h assms(2) by (rule scrollTop_ticks)
  have n2: "nat (2 * scrollHeight el) = 2 * h" using h by simp
  have bound: "scrollTop ((scrollTick ^^ k) el) \<le> of_int (scrollHeight el) / 2" for k
  proof -
    have "k mod Suc (2 * h) \<le> 2 * h" by (simp add: less_Suc_eq_le [symmetric])
    then have "(of_nat (k mod Suc (2 * h)) :: rat) \<le> of_nat (2 * h)"
      by (simp only: of_nat_le_iff)
    then show ?thesis by (simp add: top h)
  qed
  have half: "scrollTop ((scrollTick ^^ nat (2 * scrollHeight el)) el)
                   = of_int (scrollHeight el) / 2"
    unfolding n2 top by (simp add: h)
  have reset: "scrollTop ((scrollTick ^^ Suc (nat (2 * scrollHeight el))) el) = 0"
    unfolding n2 top by simp
  from first bound half reset show ?thesis
    by (simp add: scrollCursor_playing)
qed

text \<open>
  Four frames on an extent of 3 bring the cursor to \<open>1\<close>; the extent then shrinks to
  \<open>1\<close>, and the next tick reads the new extent and resets the cursor.  On the unchanged
  extent 3 the cursor climbs to \<open>3/2\<close> in six ticks and the seventh resets it.
\<close>

theorem scrollTick_bound_after_every_tick_witness:
  "0 \<le> scrollHeight threePixels \<and> scrollTop threePixels = 0 \<and>
   shrunkWhilePlaying = run [Frame, Frame, Frame, Frame, Resize 1] (mount True threePixels 0) \<and>
   mounted shrunkWhilePlaying \<and> isPlaying shrunkWhilePlaying \<and>
   scrollContainerRef shrunkWhilePlaying = Some \<lparr>scrollTop = 1, scrollHeight = 1\<rparr> \<and>
   scrollContainerRef (step Frame shrunkWhilePlaying) = Some \<lparr>scrollTop = 0, scrollHeight = 1\<rparr> \<and>
   scrollTop ((scrollTick ^^ 6) threePixels) = 3 / 2 \<and>
   scrollTop ((scrollTick ^^ 7) threePixels) = 0 \<and>
   (\<forall>k. scrollTop ((scrollTick ^^ k) threePixels) \<le> 3 / 2)"
proof -
  have h: "0 \<le> scrollHeight threePixels" "scrollTop threePixels = 0"
    by (simp_all add: threePixels_def)
  have r: "\<forall>h. Resize h \<in> set [Frame, Frame, Frame, Frame, Resize 1] \<longrightarrow> 0 \<le> h"
    by simp
  have d: "shrunkWhilePlaying = run [Frame, Frame, Frame, Frame, Resize 1] (mount True threePixels 0)"
    by (simp add: shrunkWhilePlaying_def)
  have v: "mounted shrunkWhilePlaying" "isPlaying shrunkWhilePlaying"
    "scrollContainerRef shrunkWhilePlaying = Some \<lparr>scrollTop = 1, scrollHeight = 1\<rparr>"
    by (simp_all add: shrunk_value)
  have e: "nat (2 * scrollHeight threePixels) = 6" "Suc 6 = 7"
    "(of_int (scrollHeight threePixels) :: rat) = 3"
    by (simp_all add: threePixels_def)
  have t1: "scrollTick \<lparr>scrollTop = 1, scrollHeight = 1\<rparr> = \<lparr>scrollTop = 0, scrollHeight = 1\<rparr>"
    by (simp add: scrollTick_def resetDue_def)
  note t = scrollTick_bound_after_every_tick [OF h r d, unfolded e]
  from t v have "scrollContainerRef (step Frame shrunkWhilePlaying)
                   = Some \<lparr>scrollTop = 0, scrollHeight = 1\<rparr>"
    by (auto simp: t1)
  with t h d v show ?thesis by blast
qed

text \<open>
  The claim as written bounds the cursor by half the extent in every reachable state.
  In the state above, before the next tick, the component is playing, the extent is
  \<open>1\<close> and the cursor is \<open>1\<close>, above \<open>1/2\<close>.
\<close>

theorem scrollCursor_exceeds_half_counterexample:
  "shrunkWhilePlaying = run [Frame, Frame, Frame, Frame, Resize 1] (mount True threePixels 0) \<and>
   mounted shrunkWhilePlaying \<and> isPlaying shrunkWhilePlaying \<and>
   scrollCursor shrunkWhilePlaying = Some 1 \<and>
   map_option scrollHeight (scrollContainerRef shrunkWhilePlaying) = Some 1 \<and>
   (of_int 1 / 2 :: rat) < 1"
proof -
  have d: "shrunkWhilePlaying = run [Frame, Frame, Frame, Frame, Resize 1] (mount True threePixels 0)"
    by (simp add: shrunkWhilePlaying_def)
  have v: "mounted shrunkWhilePlaying" "isPlaying shrunkWhilePlaying"
    "scrollCursor shrunkWhilePlaying = Some 1"
    "map_option scrollHeight (scrollContainerRef shrunkWhilePlaying) = Some 1"
    by (simp_all add: shrunk_value scrollCursor_def)
  have "(of_int 1 / 2 :: rat) < 1" by simp
  with d v show ?thesis by blast
qed


text \<open>
  Claim C10.  On a container with extent \<open>0\<close> and cursor \<open>0\<close>, the reset condition holds
  before every tick, so only the reset branch runs; every tick leaves the container as
  it is, and the cursor of a playing component is \<open>0\<close> after any number of frames.
\<close>

theorem scrollTick_zero_extent:
  assumes "scrollHeight el = 0" and "scrollTop el = 0"
  shows "resetDue ((scrollTick ^^ k) el) \<and>
         scrollTop ((scrollTick ^^ k) el) = 0 \<and>
         scrollTick ((scrollTick ^^ k) el) = (scrollTick ^^ k) el \<and>
         scrollCursor (run (replicate k Frame) (mount True el n)) = Some 0"
  using zero_extent_tick [OF assms] assms(2)
  by (simp add: zero_extent_ticks [OF assms] scrollCursor_playing)

theorem scrollTick_zero_extent_witness:
  "scrollHeight emptyContainer = 0 \<and> scrollTop emptyContainer = 0 \<and>
   resetDue ((scrollTick ^^ 3) emptyContainer) \<and>
   scrollTop ((scrollTick ^^ 3) emptyContainer) = 0 \<and>
   scrollTick ((scrollTick ^^ 3) emptyContainer) = (scrollTick ^^ 3) emptyContainer \<and>
   scrollCursor (run (replicate 3 Frame) (mount True emptyContainer 0)) = Some 0"
proof -
  have h: "scrollHeight emptyContainer = 0" "scrollTop emptyContainer = 0"
    by (simp_all add: emptyContainer_def)
  from scrollTick_zero_extent [OF h, of 3 0] h show ?thesis by blast
qed

subsection \<open>Nothing runs while paused, nothing is left scheduled\<close>

text \<open>
  Claim C6.  Take any state \<open>w\<close> the component reaches from its mount.  If \<open>w\<close> is paused,
  no callback is scheduled and any number of frames leave the state, and so the cursor,
  unchanged.  When playback stops (a render with \<open>isPlaying = false\<close>) and when the
  component unmounts, no callback is scheduled afterwards, and frames change nothing.
\<close>

theorem no_tick_while_paused:
  assumes "w = run evs (mount p el n)"
  shows "(\<not> isPlaying w \<longrightarrow>
            frameCallbacks w = [] \<and> (\<forall>k. run (replicate k Frame) w = w)) \<and>
         frameCallbacks (step (Render False) w) = [] \<and>
         (\<forall>k. run (replicate k Frame) (step (Render False) w) = step (Render False) w) \<and>
         frameCallbacks (step Unmount w) = [] \<and>
         (\<forall>k. run (replicate k Frame) (step Unmount w) = step Unmount w)"
proof -
  have ws: "wellScheduled w"
    unfolding assms by (rule wellScheduled_run) (rule wellScheduled_mount)
  have idle: "frameCallbacks w = []" if "\<not> isPlaying w"
    using ws that by (simp add: wellScheduled_def)
  have r: "frameCallbacks (step (Render False) w) = []"
  proof (cases "mounted w \<and> isPlaying w")
    case True
    have "wellScheduled (step (Render False) w)" using ws by (rule wellScheduled_step)
    moreover have "\<not> isPlaying (step (Render False) w)"
      using True by (simp add: effect_def)
    ultimately show ?thesis by (simp add: wellScheduled_def)
  next
    case False
    with ws have "frameCallbacks w = []" by (simp add: wellScheduled_def)
    with False show ?thesis by auto
  qed
  have u: "frameCallbacks (step Unmount w) = []"
  proof -
    have "wellScheduled (step Unmount w)" using ws by (rule wellScheduled_step)
    moreover have "\<not> mounted (step Unmount w)" by simp
    ultimately show ?thesis by (simp add: wellScheduled_def)
  qed
  from idle r u show ?thesis by (simp add: run_Frames_idle)
qed

text \<open>
  Two frames while playing move the cursor to \<open>1/2\<close>; after the pause five more frames
  leave everything as it is.
\<close>

theorem no_tick_while_paused_witness:
  "pausedAfterTwoFrames = run [Frame, Frame, Render False] (mount True threePixels 0) \<and>
   \<not> isPlaying pausedAfterTwoFrames \<and>
   scrollCursor pausedAfterTwoFrames = Some (1 / 2) \<and>
   frameCallbacks pausedAfterTwoFrames = [] \<and>
   run (replicate 5 Frame) pausedAfterTwoFrames = pausedAfterTwoFrames \<and>
   frameCallbacks (step Unmount pausedAfterTwoFrames) = []"
proof -
  have d: "pausedAfterTwoFrames = run [Frame, Frame, Render False] (mount True threePixels 0)"
    by (simp add: pausedAfterTwoFrames_def)
  have v: "pausedAfterTwoFrames =
      \<lparr>isPlaying = False, mounted = True,
       scrollContainerRef = Some \<lparr>scrollTop = 1 / 2, scrollHeight = 3\<rparr>,
       animationFrameIdRef = Some 3, frameCallbacks = [], frameCallbackId = 3\<rparr>"
    by code_simp
  have p: "\<not> isPlaying pausedAfterTwoFrames" "scrollCursor pausedAfterTwoFrames = Some (1 / 2)"
    by (simp_all add: v scrollCursor_def)
  from no_tick_while_paused [OF d] d p show ?thesis by simp
qed

section \<open>Properties of the playback state machine\<close>

subsection \<open>One listener, one toggle\<close>

lemma handleKeyDown_space:
  "key event = '' '' \<or> key event = ''Spacebar'' \<Longrightarrow>
     handleKeyDown event s =
       (event\<lparr>defaultPrevented := True\<rparr>,
        s\<lparr>isPlaying := \<not> isPlaying s, calls := calls s @ [PreventDefault, ToggleIsPlaying]\<rparr>)"
  by (auto simp: handleKeyDown_def togglePlay_def Let_def)

lemma handleKeyDown_listeners [simp]:
  "keydownListeners (snd (handleKeyDown event s)) = keydownListeners s"
  by (simp add: handleKeyDown_def togglePlay_def Let_def)

lemma handleKeyDown_key [simp]: "key (fst (handleKeyDown event s)) = key event"
  by (simp add: handleKeyDown_def Let_def)

lemma overlayHandleKeyDown_fields [simp]:
  "keydownListeners (snd (overlayHandleKeyDown event s)) = keydownListeners s"
  "isVisible (snd (overlayHandleKeyDown event s)) = isVisible s"
  by (simp_all add: overlayHandleKeyDown_def handleKeyDown_def togglePlay_def closeAndReset_def
        Let_def)

text \<open>With one listener a \<open>keydown\<close> runs the handler once, with none it does nothing.\<close>

lemma keydown_one: "keydownListeners s = 1 \<Longrightarrow> keydown event s = handleKeyDown event s"
  by (simp add: keydown_def)

lemma overlayKeydown_listening:
  "listening s \<Longrightarrow>
     overlayKeydown event s = (if isVisible s then overlayHandleKeyDown event s else (event, s))"
  by (simp add: overlayKeydown_def listening_def)

lemma appStep_listeners: "keydownListeners s = 1 \<Longrightarrow> keydownListeners (appStep ev s) = 1"
  by (cases ev)
     (simp_all add: keydown_one namesContainerClick_def togglePlay_def
        motionPreferenceChanged_def)

lemma appRun_listeners: "keydownListeners s = 1 \<Longrightarrow> keydownListeners (appRun evs s) = 1"
  unfolding appRun_def
  by (induction evs arbitrary: s) (simp_all add: appStep_listeners del: appStep.simps)

lemma appMount_listeners: "keydownListeners (appMount motion) = 1"
  by (simp add: appMount_def appEffect_def)

lemma listening_overlayEffect:
  "keydownListeners s = 0 \<Longrightarrow> listening (overlayEffect s)"
  by (simp add: listening_def overlayEffect_def Let_def)

lemma listening_overlayRender: "listening s \<Longrightarrow> listening (overlayRender v oc s)"
proof -
  assume l: "listening s"
  have "keydownListeners ((overlayCleanup s)\<lparr>isVisible := v, onClose := oc\<rparr>) = 0"
    using l by (simp add: listening_def overlayCleanup_def)
  then have "listening (overlayEffect ((overlayCleanup s)\<lparr>isVisible := v, onClose := oc\<rparr>))"
    by (rule listening_overlayEffect)
  with l show ?thesis by (simp add: overlayRender_def)
qed

lemma listening_step: "listening s \<Longrightarrow> listening (overlayStep ev s)"
proof (cases ev)
  case (Rerender v oc)
  assume "listening s"
  with Rerender show ?thesis by (simp add: listening_overlayRender)
next
  case (KeyDown k)
  assume l: "listening s"
  show ?thesis
    unfolding KeyDown overlayStep.simps overlayKeydown_listening [OF l]
    using l by (simp add: listening_def)
next
  case Click
  assume "listening s"
  with Click show ?thesis by (simp add: listening_def namesContainerClick_def togglePlay_def)
next
  case Close
  assume "listening s"
  with Close show ?thesis by (simp add: listening_def closeAndReset_def)
next
  case Timeout
  assume "listening s"
  with Timeout show ?thesis
    by (simp add: listening_def timeoutFires_def Let_def split: list.splits)
next
  case (Motion b)
  assume "listening s"
  with Motion show ?thesis by (simp add: listening_def motionPreferenceChanged_def)
qed

lemma listening_run: "listening s \<Longrightarrow> listening (overlayRun evs s)"
  unfolding overlayRun_def
  by (induction evs arbitrary: s) (simp_all add: listening_step del: overlayStep.simps)

lemma listening_mount: "listening (overlayMount v oc motion)"
  unfolding overlayMount_def by (rule listening_overlayEffect) simp

lemma toggledApp_value:
  "toggledApp =
     \<lparr>isPlaying = True, prefersReducedMotion = True, keydownListeners = 1,
      calls = [DeriveIsPlaying, PreventDefault, ToggleIsPlaying, ToggleIsPlaying]\<rparr>"
  by code_simp

lemma reopenedOverlay_value:
  "reopenedOverlay =
     \<lparr>isPlaying = False, prefersReducedMotion = True, keydownListeners = 1,
      calls = [DeriveIsPlaying, OnClose, DeriveIsPlaying, DeriveIsPlaying],
      isVisible = True, onClose = 1, bodyOverflow = ''hidden'', timeouts = []\<rparr>"
  by code_simp

text \<open>
  Claim C7.  Take any state \<open>a\<close> that a mounted \<open>App\<close>, and any state \<open>t\<close> that a
  mounted \<open>SignersOverlay\<close>, reaches through its events.  A click on the name region
  runs \<open>togglePlay\<close> once: \<open>isPlaying\<close> is negated by one state update.  A spacebar
  \<open>keydown\<close> reaches exactly one listener of \<open>App\<close>, and exactly one listener of the
  overlay while it is visible: the listener first calls \<open>preventDefault\<close> on the event
  and then toggles once.  While the overlay is hidden no listener is registered and the
  \<open>keydown\<close> changes nothing.
\<close>

theorem toggle_flips_once:
  assumes "key event = '' '' \<or> key event = ''Spacebar''"
    and "a = appRun evs (appMount motion)"
    and "t = overlayRun ovs (overlayMount v oc motion')"
  shows "namesContainerClick (Some togglePlay) a =
           a\<lparr>isPlaying := \<not> isPlaying a, calls := calls a @ [ToggleIsPlaying]\<rparr> \<and>
         namesContainerClick (Some togglePlay) t =
           t\<lparr>isPlaying := \<not> isPlaying t, calls := calls t @ [ToggleIsPlaying]\<rparr> \<and>
         keydown event a =
           (event\<lparr>defaultPrevented := True\<rparr>,
            a\<lparr>isPlaying := \<not> isPlaying a, calls := calls a @ [PreventDefault, ToggleIsPlaying]\<rparr>) \<and>
         (isVisible t \<longrightarrow>
            overlayKeydown event t =
              (event\<lparr>defaultPrevented := True\<rparr>,
               t\<lparr>isPlaying := \<not> isPlaying t,
                 calls := calls t @ [PreventDefault, ToggleIsPlaying]\<rparr>)) \<and>
         (\<not> isVisible t \<longrightarrow> overlayKeydown event t = (event, t))"
proof -
  have one: "keydownListeners a = 1"
    unfolding assms(2) by (rule appRun_listeners) (rule appMount_listeners)
  have l: "listening t"
    unfolding assms(3) by (rule listening_run) (rule listening_mount)
  have notEsc: "key event \<noteq> ''Escape''" using assms(1) by auto
  have click: "namesContainerClick (Some togglePlay) s =
      s\<lparr>isPlaying := \<not> isPlaying s, calls := calls s @ [ToggleIsPlaying]\<rparr>"
    for s :: "'z app_scheme"
    by (simp add: namesContainerClick_def togglePlay_def)
  have app: "keydown event a =
      (event\<lparr>defaultPrevented := True\<rparr>,
       a\<lparr>isPlaying := \<not> isPlaying a, calls := calls a @ [PreventDefault, ToggleIsPlaying]\<rparr>)"
    unfolding keydown_one [OF one] using assms(1) by (rule handleKeyDown_space)
  have "overlayHandleKeyDown event t = handleKeyDown event t"
    using notEsc by (simp add: overlayHandleKeyDown_def)
  then have ov: "overlayHandleKeyDown event t =
      (event\<lparr>defaultPrevented := True\<rparr>,
       t\<lparr>isPlaying := \<not> isPlaying t, calls := calls t @ [PreventDefault, ToggleIsPlaying]\<rparr>)"
    using handleKeyDown_space [OF assms(1), of t] by simp
  from click [of a] click [of t] app ov show ?thesis
    by (simp add: overlayKeydown_listening [OF l])
qed

text \<open>
  An \<open>App\<close> after a space key, a change of the preference and a click; an overlay that
  was shown, closed by Escape, hidden, and shown again with another \<open>onClose\<close>.
\<close>

theorem toggle_flips_once_witness:
  "key spaceKey = '' '' \<and>
   toggledApp = appRun [AppKeyDown '' '', AppMotion True, AppClick] (appMount False) \<and>
   reopenedOverlay =
     overlayRun [Rerender True 0, KeyDown ''Escape'', Rerender False 0, Timeout, Rerender True 1]
       (overlayMount False 0 True) \<and>
   isVisible reopenedOverlay \<and>
   isPlaying toggledApp \<and> \<not> isPlaying reopenedOverlay \<and>
   \<not> isPlaying (namesContainerClick (Some togglePlay) toggledApp) \<and>
   keydown spaceKey toggledApp =
     (\<lparr>key = '' '', defaultPrevented = True\<rparr>,
      \<lparr>isPlaying = False, prefersReducedMotion = True, keydownListeners = 1,
       calls = [DeriveIsPlaying, PreventDefault, ToggleIsPlaying, ToggleIsPlaying,
                PreventDefault, ToggleIsPlaying]\<rparr>) \<and>
   overlayKeydown spaceKey reopenedOverlay =
     (\<lparr>key = '' '', defaultPrevented = True\<rparr>,
      \<lparr>isPlaying = True, prefersReducedMotion = True, keydownListeners = 1,
       calls = [DeriveIsPlaying, OnClose, DeriveIsPlaying, DeriveIsPlaying,
                PreventDefault, ToggleIsPlaying],
       isVisible = True, onClose = 1, bodyOverflow = ''hidden'', timeouts = []\<rparr>)"
proof -
  have k: "key spaceKey = '' '' \<or> key spaceKey = ''Spacebar''" "key spaceKey = '' ''"
    by (simp_all add: spaceKey_def)
  have a: "toggledApp = appRun [AppKeyDown '' '', AppMotion True, AppClick] (appMount False)"
    by (simp add: toggledApp_def)
  have t: "reopenedOverlay =
     overlayRun [Rerender True 0, KeyDown ''Escape'', Rerender False 0, Timeout, Rerender True 1]
       (overlayMount False 0 True)"
    by (simp add: reopenedOverlay_def)
  have v: "isVisible reopenedOverlay" "isPlaying toggledApp" "\<not> isPlaying reopenedOverlay"
    by (simp_all add: toggledApp_value reopenedOverlay_value)
  note r = toggle_flips_once [OF k(1) a t]
  from r v have
    "\<not> isPlaying (namesContainerClick (Some togglePlay) toggledApp)"
    "keydown spaceKey toggledApp =
     (\<lparr>key = '' '', defaultPrevented = True\<rparr>,
      \<lparr>isPlaying = False, prefersReducedMotion = True, keydownListeners = 1,
       calls = [DeriveIsPlaying, PreventDefault, ToggleIsPlaying, ToggleIsPlaying,
                PreventDefault, ToggleIsPlaying]\<rparr>)"
    "overlayKeydown spaceKey reopenedOverlay =
     (\<lparr>key = '' '', defaultPrevented = True\<rparr>,
      \<lparr>isPlaying = True, prefersReducedMotion = True, keydownListeners = 1,
       calls = [DeriveIsPlaying, OnClose, DeriveIsPlaying, DeriveIsPlaying,
                PreventDefault, ToggleIsPlaying],
       isVisible = True, onClose = 1, bodyOverflow = ''hidden'', timeouts = []\<rparr>)"
    by (simp_all add: toggledApp_value reopenedOverlay_value spaceKey_def)
  with k(2) a t v show ?thesis by blast
qed

subsection \<open>The reduced-motion signal\<close>

text \<open>
  On mount \<open>App\<close> sets \<open>isPlaying\<close> to the negation of the signal, by one read; so does
  the overlay when a render makes it visible, and it sets the page's overflow to
  \<open>hidden\<close>.  The overlay does the same on a render that leaves it visible and passes
  another \<open>onClose\<close>.
\<close>

lemma appMount_derives:
  "isPlaying (appMount motion) = (\<not> motion) \<and> calls (appMount motion) = [DeriveIsPlaying]"
  by (simp add: appMount_def appEffect_def)

lemma overlayRender_shown_derives:
  "\<not> isVisible t \<Longrightarrow>
     isPlaying (overlayRender True oc t) = (\<not> prefersReducedMotion t) \<and>
     calls (overlayRender True oc t) = calls t @ [DeriveIsPlaying] \<and>
     bodyOverflow (overlayRender True oc t) = ''hidden''"
  by (simp add: overlayRender_def overlayEffect_def overlayCleanup_def Let_def)

lemma overlayRender_visible_rederives:
  "isVisible t \<Longrightarrow> oc \<noteq> onClose t \<Longrightarrow>
     isPlaying (overlayRender True oc t) = (\<not> prefersReducedMotion t) \<and>
     calls (overlayRender True oc t) = calls t @ [DeriveIsPlaying]"
  by (simp add: overlayRender_def overlayEffect_def overlayCleanup_def Let_def)

lemma pausedVisibleOverlay_value:
  "pausedVisibleOverlay =
     \<lparr>isPlaying = False, prefersReducedMotion = False, keydownListeners = 1,
      calls = [DeriveIsPlaying, PreventDefault, ToggleIsPlaying],
      isVisible = True, onClose = 0, bodyOverflow = ''hidden'', timeouts = []\<rparr>"
  by code_simp

text \<open>
  Claim C8, on the code.  A visible overlay, mounted with the preference not set, is
  paused by a space key.  A render with the same visibility and another \<open>onClose\<close>
  function then reads the signal a second time and sets \<open>isPlaying\<close> back to true, so
  the pause is lost; a render with the same props changes nothing.
\<close>

theorem overlay_rerender_overwrites_pause:
  "pausedVisibleOverlay = overlayRun [KeyDown '' ''] (overlayMount True 0 False) \<and>
   isVisible pausedVisibleOverlay \<and>
   prefersReducedMotion pausedVisibleOverlay = False \<and>
   isPlaying pausedVisibleOverlay = False \<and>
   calls pausedVisibleOverlay = [DeriveIsPlaying, PreventDefault, ToggleIsPlaying] \<and>
   isVisible (overlayRender True 1 pausedVisibleOverlay) \<and>
   isPlaying (overlayRender True 1 pausedVisibleOverlay) = True \<and>
   calls (overlayRender True 1 pausedVisibleOverlay)
     = [DeriveIsPlaying, PreventDefault, ToggleIsPlaying, DeriveIsPlaying] \<and>
   overlayRender True 0 pausedVisibleOverlay = pausedVisibleOverlay"
proof -
  have d: "pausedVisibleOverlay = overlayRun [KeyDown '' ''] (overlayMount True 0 False)"
    by (simp add: pausedVisibleOverlay_def)
  have "isVisible pausedVisibleOverlay"
    "prefersReducedMotion pausedVisibleOverlay = False"
    "isPlaying pausedVisibleOverlay = False"
    "calls pausedVisibleOverlay = [DeriveIsPlaying, PreventDefault, ToggleIsPlaying]"
    "isVisible (overlayRender True 1 pausedVisibleOverlay)"
    "isPlaying (overlayRender True 1 pausedVisibleOverlay) = True"
    "calls (overlayRender True 1 pausedVisibleOverlay)
       = [DeriveIsPlaying, PreventDefault, ToggleIsPlaying, DeriveIsPlaying]"
    "overlayRender True 0 pausedVisibleOverlay = pausedVisibleOverlay"
    by (simp_all add: pausedVisibleOverlay_value overlayRender_def overlayEffect_def
          overlayCleanup_def)
  with d show ?thesis by blast
qed


end
